theory Spec2Isabelle
  imports Main "HOL-Library.Sublist"
begin

section \<open>Strings, characters and Python's string methods\<close>

text \<open>
  The guard \<^verbatim>\<open>guard-readonly-bash.py\<close> is pure text analysis: a command line goes in,
  \<^verbatim>\<open>None\<close> (allowed) or a reason (blocked) comes out. A Python \<^verbatim>\<open>str\<close> is modelled as a
  \<^typ>\<open>string\<close>, one \<^typ>\<open>char\<close> per code point, for the code points 0 to 255.

  \<^verbatim>\<open>str.split()\<close>, \<^verbatim>\<open>str.strip()\<close> and the regular expression class \<^verbatim>\<open>\s\<close> of a
  \<^verbatim>\<open>str\<close> pattern all use the same test for white space: on the
  code points below 256 these are 9 to 13, 28 to 31, 32, 133 and 160.
\<close>

definition is_space :: "char \<Rightarrow> bool" where
  "is_space c \<longleftrightarrow>
     c \<in> set [CHR 0x09, CHR 0x0A, CHR 0x0B, CHR 0x0C, CHR 0x0D, CHR 0x1C, CHR 0x1D,
              CHR 0x1E, CHR 0x1F, CHR 0x20, CHR 0x85, CHR 0xA0]"

text \<open>The characters that cannot be typed inside a string literal of this file.\<close>

definition backslash :: char where "backslash = CHR 0x5C"
definition newline :: char where "newline = CHR 0x0A"
definition backtick :: char where "backtick = CHR 0x60"
definition quote :: string where "quote = [CHR 0x27]"

text \<open>\<^verbatim>\<open>s.strip()\<close>, \<^verbatim>\<open>s.split()\<close>, \<^verbatim>\<open>w.startswith("-")\<close>, \<^verbatim>\<open>p in s\<close> for strings.\<close>

definition strip :: "string \<Rightarrow> string" where
  "strip s = rev (dropWhile is_space (rev (dropWhile is_space s)))"

fun split_ws :: "string \<Rightarrow> string \<Rightarrow> string list" where
  "split_ws acc [] = (if acc = [] then [] else [acc])"
| "split_ws acc (c # cs) =
     (if is_space c then (if acc = [] then split_ws [] cs else acc # split_ws [] cs)
      else split_ws (acc @ [c]) cs)"

definition py_split :: "string \<Rightarrow> string list" where
  "py_split s = split_ws [] s"

definition startswith :: "string \<Rightarrow> string \<Rightarrow> bool" where
  "startswith w p = prefix p w"

fun contains :: "string \<Rightarrow> string \<Rightarrow> bool" where
  "contains p [] = (p = [])"
| "contains p (c # cs) = (prefix p (c # cs) \<or> contains p cs)"

text \<open>\<^verbatim>\<open>command.replace("\\\n", " ")\<close>: every backslash followed by a newline becomes
  one blank, scanning from the left.\<close>

fun replace_continuation :: "string \<Rightarrow> string" where
  "replace_continuation (a # b # cs) =
     (if a = backslash \<and> b = newline then CHR '' '' # replace_continuation cs
      else a # replace_continuation (b # cs))"
| "replace_continuation cs = cs"

section \<open>Regular expressions\<close>

text \<open>
  Python's \<^verbatim>\<open>re\<close> is a backtracking matcher: it tries the alternatives of a pattern in
  their order (the left branch of \<^verbatim>\<open>|\<close> first, one more repetition of a greedy \<^verbatim>\<open>*\<close>,
  \<^verbatim>\<open>?\<close> or \<^verbatim>\<open>{1,2}\<close> first) and takes the first way through the pattern that succeeds.
  A pattern is modelled as a function from its continuation (what must match after it) to
  a matcher; a matcher takes the character before the current position (\<open>None\<close> at the
  start of the string; a look-behind reads it) and the rest of the string.
\<close>

type_synonym 'a cont = "char option \<Rightarrow> string \<Rightarrow> 'a option"
type_synonym 'a rx = "'a cont \<Rightarrow> 'a cont"

text \<open>One character of a class, \<^verbatim>\<open>[...]\<close>.\<close>

definition cls :: "(char \<Rightarrow> bool) \<Rightarrow> 'a rx" where
  "cls P k p s = (case s of [] \<Rightarrow> None | x # xs \<Rightarrow> if P x then k (Some x) xs else None)"

text \<open>A literal string.\<close>

fun lit :: "string \<Rightarrow> 'a rx" where
  "lit [] k p s = k p s"
| "lit (c # cs) k p s = cls (\<lambda>x. x = c) (lit cs k) p s"

text \<open>Greedy \<^verbatim>\<open>r?\<close> and \<^verbatim>\<open>r1|r2\<close>.\<close>

definition opt :: "'a rx \<Rightarrow> 'a rx" where
  "opt r k p s = (case r k p s of Some y \<Rightarrow> Some y | None \<Rightarrow> k p s)"

definition alt :: "'a rx \<Rightarrow> 'a rx \<Rightarrow> 'a rx" where
  "alt r1 r2 k p s = (case r1 k p s of Some y \<Rightarrow> Some y | None \<Rightarrow> r2 k p s)"

text \<open>Greedy \<^verbatim>\<open>[...]*\<close> and \<^verbatim>\<open>[...]+\<close> over a character class.\<close>

fun star :: "(char \<Rightarrow> bool) \<Rightarrow> 'a rx" where
  "star P k p [] = k p []"
| "star P k p (x # xs) =
     (if P x then (case star P k (Some x) xs of Some y \<Rightarrow> Some y | None \<Rightarrow> k p (x # xs))
      else k p (x # xs))"

definition plus :: "(char \<Rightarrow> bool) \<Rightarrow> 'a rx" where
  "plus P k p s = cls P (star P k) p s"

text \<open>\<^verbatim>\<open>(?<![c])\<close>, \<^verbatim>\<open>(?![c])\<close> and \<^verbatim>\<open>^\<close> (without \<^verbatim>\<open>re.MULTILINE\<close>: the start of the
  string only).\<close>

definition not_behind :: "char \<Rightarrow> 'a rx" where
  "not_behind c k p s = (if p = Some c then None else k p s)"

definition not_ahead :: "char \<Rightarrow> 'a rx" where
  "not_ahead c k p s = (case s of [] \<Rightarrow> k p s | x # xs \<Rightarrow> if x = c then None else k p s)"

definition bos :: "'a rx" where
  "bos k p s = (if p = None then k p s else None)"

text \<open>A capturing group: the continuation also gets the text the group matched.\<close>

definition group :: "'a rx \<Rightarrow> (string \<Rightarrow> 'a cont) \<Rightarrow> 'a cont" where
  "group r k p s = r (\<lambda>p' s'. k (take (length s - length s') s) p' s') p s"

text \<open>The end of a pattern: the match succeeds, and gives the position it ends at.\<close>

definition accept :: "(char option \<times> string) cont" where
  "accept p s = Some (p, s)"

type_synonym matcher = "(char option \<times> string) cont"

subsection \<open>The operations of \<^verbatim>\<open>re\<close>\<close>

text \<open>
  \<^verbatim>\<open>re.search\<close>, \<^verbatim>\<open>re.sub(pattern, "", s)\<close>, \<^verbatim>\<open>re.split\<close> and \<^verbatim>\<open>re.finditer\<close> scan the
  string from the left: at each position they try the pattern, take the first match (the
  leftmost one) and go on from its end. None of the five patterns of the guard matches the
  empty string (lemmas \<open>*_shorter\<close> below), so a match always ends further right.
\<close>

fun re_search :: "matcher \<Rightarrow> char option \<Rightarrow> string \<Rightarrow> bool" where
  "re_search m p [] = (m p [] \<noteq> None)"
| "re_search m p (c # cs) = (m p (c # cs) \<noteq> None \<or> re_search m (Some c) cs)"

function re_sub_empty :: "matcher \<Rightarrow> char option \<Rightarrow> string \<Rightarrow> string" where
  "re_sub_empty m p [] = []"
| "re_sub_empty m p (c # cs) =
     (case m p (c # cs) of
        None \<Rightarrow> c # re_sub_empty m (Some c) cs
      | Some (p', r) \<Rightarrow>
          if length r \<le> length cs then re_sub_empty m p' r
          else c # re_sub_empty m (Some c) cs)"
  by pat_completeness auto
termination
  by (relation "measure (\<lambda>(m, p, s). length s)") auto

function re_split :: "matcher \<Rightarrow> char option \<Rightarrow> string \<Rightarrow> string \<Rightarrow> string list" where
  "re_split m p acc [] = [acc]"
| "re_split m p acc (c # cs) =
     (case m p (c # cs) of
        None \<Rightarrow> re_split m (Some c) (acc @ [c]) cs
      | Some (p', r) \<Rightarrow>
          if length r \<le> length cs then acc # re_split m p' [] r
          else re_split m (Some c) (acc @ [c]) cs)"
  by pat_completeness auto
termination
  by (relation "measure (\<lambda>(m, p, acc, s). length s)") auto

text \<open>\<^verbatim>\<open>[m.group(1) for m in re.finditer(pattern, s)]\<close>, for a pattern with one group.\<close>

function re_finditer ::
  "(string \<times> char option \<times> string) cont \<Rightarrow> char option \<Rightarrow> string \<Rightarrow> string list" where
  "re_finditer m p [] = []"
| "re_finditer m p (c # cs) =
     (case m p (c # cs) of
        None \<Rightarrow> re_finditer m (Some c) cs
      | Some (g, p', r) \<Rightarrow>
          if length r \<le> length cs then g # re_finditer m p' r
          else re_finditer m (Some c) cs)"
  by pat_completeness auto
termination
  by (relation "measure (\<lambda>(m, p, s). length s)") auto

section \<open>The rule tables\<close>

text \<open>The \<^verbatim>\<open>frozenset\<close>s and tuples of the guard, as lists; membership is \<open>\<in> set\<close>.\<close>

definition WRITE_COMMANDS :: "string list" where
  "WRITE_COMMANDS =
     [''rm'', ''mv'', ''cp'', ''mkdir'', ''rmdir'', ''touch'', ''chmod'',
      ''chown'', ''chgrp'', ''ln'', ''install'', ''mkfifo'', ''mknod'',
      ''truncate'', ''shred'', ''unlink'', ''nano'', ''vi'', ''vim'', ''nvim'',
      ''kill'', ''pkill'', ''killall'', ''dd'', ''sudo'', ''su'', ''tee'',
      ''eval'', ''exec'', ''source'', ''xargs'']"

definition WRITE_PREFIXES :: "string list" where
  "WRITE_PREFIXES =
     [''docker stop'', ''docker rm'', ''docker kill'', ''docker rmi'',
      ''docker exec'', ''docker-compose down'', ''docker compose down'',
      ''git push'', ''git reset'', ''git clean'', ''git merge'', ''git rebase'',
      ''git commit'', ''git cherry-pick'', ''git revert'', ''git pull'',
      ''git checkout --'', ''git restore'', ''git stash drop'',
      ''git stash clear'', ''git stash pop'', ''git config'', ''git remote add'',
      ''git remote remove'', ''git remote rename'', ''git branch -d'',
      ''git branch -D'', ''git branch --delete'', ''git branch -m'',
      ''git branch -M'', ''git branch --move'', ''git tag -d'',
      ''git tag --delete'', ''pip install'', ''pip uninstall'', ''pip3 install'',
      ''pip3 uninstall'', ''uv pip'', ''npm install'', ''npm uninstall'',
      ''npm ci'', ''npm update'', ''npm link'', ''yarn add'', ''yarn remove'',
      ''yarn install'', ''pnpm add'', ''pnpm remove'', ''pnpm install'',
      ''apt install'', ''apt-get install'', ''apt remove'', ''apt-get remove'',
      ''cargo install'', ''sed -i'', ''sed --in-place'']"

definition INTERPRETERS :: "string list" where
  "INTERPRETERS =
     [''bash'', ''sh'', ''zsh'', ''dash'', ''ksh'', ''fish'', ''python'',
      ''python3'', ''node'', ''perl'', ''ruby'']"

definition GIT_SAFE_SUBCOMMANDS :: "string list" where
  "GIT_SAFE_SUBCOMMANDS =
     [''log'', ''blame'', ''show'', ''diff'', ''bisect'', ''reflog'', ''shortlog'',
      ''rev-parse'', ''rev-list'', ''branch'', ''tag'', ''remote'', ''status'',
      ''ls-files'', ''ls-tree'', ''cat-file'', ''describe'', ''name-rev'',
      ''grep'', ''for-each-ref'', ''count-objects'', ''fsck'', ''verify-commit'',
      ''verify-tag'', ''fetch'', ''stash'', ''notes'', ''worktree'', ''config'',
      ''help'', ''version'']"

definition READONLY_UTILITIES :: "string list" where
  "READONLY_UTILITIES =
     [''cat'', ''head'', ''tail'', ''less'', ''more'', ''bat'', ''wc'', ''sort'',
      ''uniq'', ''cut'', ''tr'', ''paste'', ''column'', ''fold'', ''sed'', ''awk'',
      ''gawk'', ''grep'', ''egrep'', ''fgrep'', ''rg'', ''ag'', ''ack'', ''find'',
      ''ls'', ''tree'', ''file'', ''stat'', ''du'', ''df'', ''echo'', ''printf'',
      ''diff'', ''comm'', ''cmp'', ''jq'', ''yq'', ''basename'', ''dirname'',
      ''realpath'', ''readlink'', ''date'', ''cal'', ''env'', ''printenv'', ''id'',
      ''whoami'', ''uname'', ''hostname'', ''pwd'', ''uptime'', ''nproc'',
      ''arch'', ''true'', ''false'', ''test'', ''['', ''which'', ''type'',
      ''command'', ''seq'', ''expr'', ''bc'', ''tput'', ''clear'', ''md5sum'',
      ''sha256sum'', ''sha1sum'', ''xxd'', ''od'', ''hexdump'', ''strings'',
      ''curl'', ''ssh'', ''ast-grep'', ''sg'']"

text \<open>\<^verbatim>\<open>INLINE_FLAGS\<close> and \<^verbatim>\<open>GIT_RESTRICTED_ARGS\<close> are dictionaries: association lists read
  with \<^const>\<open>map_of\<close>.\<close>

definition INLINE_FLAGS :: "(string \<times> string) list" where
  "INLINE_FLAGS =
     [(''python'', ''-c''), (''python3'', ''-c''), (''node'', ''-e''), (''perl'', ''-e''),
      (''ruby'', ''-e''), (''bash'', ''-c''), (''sh'', ''-c''), (''zsh'', ''-c'')]"

definition GIT_RESTRICTED_ARGS :: "(string \<times> string list) list" where
  "GIT_RESTRICTED_ARGS =
     [(''branch'', [''-d'', ''-D'', ''-m'', ''-M'', ''--delete'', ''--move'', ''--copy'', ''-c'', ''-C'']),
      (''tag'', [''-d'', ''--delete'', ''-f'', ''--force'']),
      (''remote'', [''add'', ''remove'', ''rename'', ''set-url'', ''set-head'', ''prune'']),
      (''stash'', [''drop'', ''clear'', ''pop'', ''apply'', ''push'', ''save'', ''create'', ''store'']),
      (''worktree'', [''add'', ''remove'', ''prune'', ''repair'', ''move'', ''lock'', ''unlock'']),
      (''notes'', [''add'', ''append'', ''copy'', ''edit'', ''merge'', ''prune'', ''remove'']),
      (''config'', [])]"

section \<open>Command parsing helpers\<close>

subsection \<open>\<^verbatim>\<open>_split_segments\<close> and \<^verbatim>\<open>_split_pipes\<close>\<close>

text \<open>\<^verbatim>\<open>\s*(?:;|&&|\|\||(?<![&])&(?![&]))\s*\<close>: the group in the middle first, then
  the whole pattern.\<close>

definition control_operator :: "'a rx" where
  "control_operator =
     alt (lit '';'')
       (alt (lit ''&&'')
         (alt (lit ''||'')
           (\<lambda>k. not_behind (CHR ''&'') (lit ''&'' (not_ahead (CHR ''&'') k)))))"

definition segment_separator :: "'a rx" where
  "segment_separator k = star is_space (control_operator (star is_space k))"

text \<open>\<^verbatim>\<open>[s.strip() for s in segments if s.strip()]\<close>\<close>

definition strip_nonempty :: "string list \<Rightarrow> string list" where
  "strip_nonempty parts = map strip (filter (\<lambda>s. strip s \<noteq> []) parts)"

definition split_segments :: "string \<Rightarrow> string list" where
  "split_segments command =
     strip_nonempty (re_split (segment_separator accept) None [] (replace_continuation command))"

text \<open>\<^verbatim>\<open>(?<!\|)\|(?!\|)\<close>\<close>

definition single_pipe :: "'a rx" where
  "single_pipe k = not_behind (CHR ''|'') (lit ''|'' (not_ahead (CHR ''|'') k))"

definition split_pipes :: "string \<Rightarrow> string list" where
  "split_pipes segment = strip_nonempty (re_split (single_pipe accept) None [] segment)"

subsection \<open>\<^verbatim>\<open>_get_cmd_words\<close>, \<^verbatim>\<open>_base_name\<close>, \<^verbatim>\<open>_resolve_prefix\<close>\<close>

text \<open>The loop of \<^verbatim>\<open>_get_cmd_words\<close>, with \<^verbatim>\<open>result\<close> as its state: a word with \<^verbatim>\<open>=\<close>
  that does not start with \<^verbatim>\<open>-\<close> is skipped as long as \<^verbatim>\<open>result\<close> is empty.\<close>

fun cmd_words_loop :: "string list \<Rightarrow> string list \<Rightarrow> string list" where
  "cmd_words_loop result [] = result"
| "cmd_words_loop result (word # words) =
     (if CHR ''='' \<in> set word \<and> \<not> startswith word ''-'' \<and> result = []
      then cmd_words_loop result words
      else cmd_words_loop (result @ [word]) words)"

definition get_cmd_words :: "string \<Rightarrow> string list" where
  "get_cmd_words stage = cmd_words_loop [] (py_split stage)"

text \<open>\<^verbatim>\<open>cmd.lstrip("\\")\<close> drops every leading backslash; \<^verbatim>\<open>cmd.rsplit("/", 1)[-1]\<close> is
  what follows the last slash.\<close>

definition base_name :: "string \<Rightarrow> string" where
  "base_name cmd =
     (let cmd = dropWhile (\<lambda>c. c = backslash) cmd
      in if CHR ''/'' \<in> set cmd then rev (takeWhile (\<lambda>c. c \<noteq> CHR ''/'') (rev cmd)) else cmd)"

definition resolve_prefix :: "string list \<Rightarrow> string \<times> string list" where
  "resolve_prefix words =
     (case words of
        [] \<Rightarrow> ([], [])
      | w # ws \<Rightarrow>
          let base = base_name w in
          if base \<in> set [''command'', ''builtin'']
          then (case dropWhile (\<lambda>r. startswith r ''-'') ws of
                  [] \<Rightarrow> ([], [])
                | r # rs \<Rightarrow> (base_name r, r # rs))
          else (base, words))"

subsection \<open>\<^verbatim>\<open>_has_redirect\<close>\<close>

text \<open>\<^verbatim>\<open>[12]?>{1,2}\s*/dev/null\<close>; \<^verbatim>\<open>>{1,2}\<close> is one \<^verbatim>\<open>>\<close> and, greedily, a second.\<close>

definition devnull_redirect :: "'a rx" where
  "devnull_redirect k =
     opt (cls (\<lambda>c. c \<in> set ''12''))
       (lit ''>'' (opt (lit ''>'') (star is_space (lit ''/dev/null'' k))))"

text \<open>\<^verbatim>\<open>(?:^|[\s)])(?:[12])?>{1,2}\s*[^\s&|;]\<close>\<close>

definition file_redirect :: "'a rx" where
  "file_redirect k =
     alt bos (cls (\<lambda>c. is_space c \<or> c = CHR '')''))
       (opt (cls (\<lambda>c. c \<in> set ''12''))
         (lit ''>'' (opt (lit ''>'')
           (star is_space (cls (\<lambda>c. \<not> (is_space c \<or> c \<in> set ''&|;'')) k)))))"

definition has_redirect :: "string \<Rightarrow> bool" where
  "has_redirect command =
     (let cleaned = re_sub_empty (devnull_redirect accept) None command
      in re_search (file_redirect accept) None cleaned)"

subsection \<open>\<^verbatim>\<open>_has_command_substitution\<close>, \<^verbatim>\<open>_extract_substitution_commands\<close>\<close>

definition has_command_substitution :: "string \<Rightarrow> bool" where
  "has_command_substitution command \<longleftrightarrow>
     contains ''$('' command \<or> contains [backtick] command"

text \<open>\<^verbatim>\<open>\$\(([^)]+)\)\<close> and the same between two back-ticks.\<close>

definition dollar_paren :: "(string \<times> char option \<times> string) cont" where
  "dollar_paren =
     lit ''$('' (group (plus (\<lambda>c. c \<noteq> CHR '')''))
       (\<lambda>g. lit '')'' (\<lambda>p s. Some (g, p, s))))"

definition backticks :: "(string \<times> char option \<times> string) cont" where
  "backticks =
     lit [backtick] (group (plus (\<lambda>c. c \<noteq> backtick))
       (\<lambda>g. lit [backtick] (\<lambda>p s. Some (g, p, s))))"

definition extract_substitution_commands :: "string \<Rightarrow> string list" where
  "extract_substitution_commands command =
     re_finditer dollar_paren None command @ re_finditer backticks None command"

subsection \<open>\<^verbatim>\<open>_has_sed_inplace\<close>, \<^verbatim>\<open>_matches_prefix\<close>\<close>

definition has_sed_inplace :: "string list \<Rightarrow> bool" where
  "has_sed_inplace words =
     list_ex (\<lambda>w. (w = ''-i'' \<or> w = ''--in-place'' \<or> startswith w ''-i'') \<or>
                  (startswith w ''-'' \<and> \<not> startswith w ''--'' \<and> CHR ''i'' \<in> set w))
       (tl words)"

definition matches_prefix :: "string list \<Rightarrow> string \<Rightarrow> bool" where
  "matches_prefix cmd_words wp =
     (let pwords = py_split wp
      in if length cmd_words < length pwords then False
         else take (length pwords) cmd_words = pwords)"

section \<open>Mode checkers\<close>

text \<open>
  A checker returns \<^verbatim>\<open>None\<close> (allowed) or the reason (blocked): a \<^typ>\<open>string option\<close>. The
  body of the loop over the pipe stages is a function of the stage and its index: \<open>None\<close>
  is \<^verbatim>\<open>continue\<close> (or the end of the body), \<open>Some reason\<close> is \<^verbatim>\<open>return reason\<close>. The
  body is written in two steps: \<open>*_stage\<close> computes \<^verbatim>\<open>words = _get_cmd_words(stage)\<close>, and
  \<open>*_words\<close> is the rest of the body.
  \<^verbatim>\<open>if result:\<close> tests a \<^verbatim>\<open>str | None\<close> for truth: not \<^verbatim>\<open>None\<close> and not empty.
\<close>

definition truthy :: "string option \<Rightarrow> bool" where
  "truthy r = (case r of None \<Rightarrow> False | Some s \<Rightarrow> s \<noteq> [])"

definition not_allowed :: "string \<Rightarrow> string" where
  "not_allowed what = ''Blocked: '' @ quote @ what @ quote @ '' is not allowed in read-only mode''"

subsection \<open>\<^verbatim>\<open>check_general_readonly\<close>\<close>

definition general_words :: "nat \<Rightarrow> string list \<Rightarrow> string option" where
  "general_words i words =
     (if words = [] then None
      else (case resolve_prefix words of
        (base, words) \<Rightarrow>
          if base = [] then None
          else if base \<in> set WRITE_COMMANDS then Some (not_allowed base)
          else (case find (matches_prefix (base # tl words)) WRITE_PREFIXES of
            Some wp \<Rightarrow> Some (not_allowed wp)
          | None \<Rightarrow>
              if 0 < i \<and> base \<in> set INTERPRETERS
              then Some (''Blocked: piping into '' @ quote @ base @ quote @
                         '' is not allowed in read-only mode'')
              else (case map_of INLINE_FLAGS base of
                None \<Rightarrow> None
              | Some flag \<Rightarrow>
                  if flag \<in> set (tl words)
                  then Some (''Blocked: '' @ quote @ base @ '' '' @ flag @ quote @
                             '' inline execution is not allowed in read-only mode'')
                  else None))))"

definition general_stage :: "nat \<Rightarrow> string \<Rightarrow> string option" where
  "general_stage i stage = general_words i (get_cmd_words stage)"

text \<open>\<^verbatim>\<open>for i, stage in enumerate(...)\<close> and \<^verbatim>\<open>for segment in ...\<close>, for either mode's body.\<close>

fun stages_loop :: "(nat \<Rightarrow> string \<Rightarrow> string option) \<Rightarrow> nat \<Rightarrow> string list \<Rightarrow> string option" where
  "stages_loop body i [] = None"
| "stages_loop body i (stage # stages) =
     (case body i stage of
        Some reason \<Rightarrow> Some reason
      | None \<Rightarrow> stages_loop body (Suc i) stages)"

fun segments_loop :: "(nat \<Rightarrow> string \<Rightarrow> string option) \<Rightarrow> string list \<Rightarrow> string option" where
  "segments_loop body [] = None"
| "segments_loop body (segment # segments) =
     (case stages_loop body 0 (split_pipes segment) of
        Some reason \<Rightarrow> Some reason
      | None \<Rightarrow> segments_loop body segments)"

subsection \<open>What a match of a substitution pattern looks like\<close>

text \<open>The recursion of the checkers into the extracted commands ends because an extracted
  command is shorter than the command it stands in. The facts about the patterns that
  show it come first.\<close>

lemma star_SomeD:
  "star P k p s = Some y \<Longrightarrow>
     \<exists>xs ys. s = xs @ ys \<and> list_all P xs \<and> k (if xs = [] then p else Some (last xs)) ys = Some y"
proof (induction s arbitrary: p)
  case Nil
  then show ?case by simp
next
  case (Cons x s)
  show ?case
  proof (cases "P x \<and> star P k (Some x) s \<noteq> None")
    case True
    then obtain z where z: "star P k (Some x) s = Some z" by auto
    with Cons.prems True have "z = y" by simp
    with z Cons.IH obtain xs ys where
      "s = xs @ ys" "list_all P xs" "k (if xs = [] then Some x else Some (last xs)) ys = Some y"
      by blast
    with True show ?thesis
      by (intro exI[of _ "x # xs"] exI[of _ ys]) auto
  next
    case False
    with Cons.prems have "k p (x # s) = Some y"
      by (auto split: if_splits option.splits)
    then show ?thesis
      by (intro exI[of _ "[]"] exI[of _ "x # s"]) simp
  qed
qed

lemma lit_Some_iff:
  "lit w k p s = Some y \<longleftrightarrow>
     (\<exists>r. s = w @ r \<and> k (if w = [] then p else Some (last w)) r = Some y)"
proof (induction w arbitrary: p s)
  case Nil
  then show ?case by simp
next
  case (Cons c w)
  show ?case
    by (cases s) (auto simp: cls_def Cons.IH)
qed

lemma group_plus_SomeD:
  assumes "group (plus P) k p s = Some y"
  shows "\<exists>g r. s = g @ r \<and> g \<noteq> [] \<and> list_all P g \<and> k g (Some (last g)) r = Some y"
proof -
  from assms obtain x xs where s: "s = x # xs" and x: "P x"
    and st: "star P (\<lambda>p' s'. k (take (length s - length s') s) p' s') (Some x) xs = Some y"
    by (auto simp: group_def plus_def cls_def split: list.splits if_splits)
  from star_SomeD[OF st] obtain as bs where
    xs: "xs = as @ bs" and as: "list_all P as"
    and k: "k (take (length s - length bs) s) (if as = [] then Some x else Some (last as)) bs = Some y"
    by blast
  have "take (length s - length bs) s = x # as"
    by (simp add: s xs)
  with k x as s xs show ?thesis
    by (intro exI[of _ "x # as"] exI[of _ bs]) auto
qed

lemma dollar_paren_SomeD:
  assumes "dollar_paren p s = Some (g, p', r)"
  shows "s = ''$('' @ g @ '')'' @ r \<and> g \<noteq> [] \<and> CHR '')'' \<notin> set g"
proof -
  from assms obtain r1 where r1: "s = ''$('' @ r1"
    and g1: "group (plus (\<lambda>c. c \<noteq> CHR '')''))
               (\<lambda>g. lit '')'' (\<lambda>p s. Some (g, p, s))) (Some (CHR ''('')) r1 = Some (g, p', r)"
    unfolding dollar_paren_def lit_Some_iff by auto
  from group_plus_SomeD[OF g1] obtain g' r2 where
    "r1 = g' @ r2" "g' \<noteq> []" "list_all (\<lambda>c. c \<noteq> CHR '')'') g'"
    "lit '')'' (\<lambda>p s. Some (g', p, s)) (Some (last g')) r2 = Some (g, p', r)"
    by blast
  with r1 show ?thesis
    unfolding lit_Some_iff by (auto simp: list_all_iff)
qed

lemma backticks_SomeD:
  assumes "backticks p s = Some (g, p', r)"
  shows "s = [backtick] @ g @ [backtick] @ r \<and> g \<noteq> [] \<and> backtick \<notin> set g"
proof -
  from assms obtain r1 where r1: "s = [backtick] @ r1"
    and g1: "group (plus (\<lambda>c. c \<noteq> backtick))
               (\<lambda>g. lit [backtick] (\<lambda>p s. Some (g, p, s))) (Some backtick) r1 = Some (g, p', r)"
    unfolding backticks_def lit_Some_iff by auto
  from group_plus_SomeD[OF g1] obtain g' r2 where
    "r1 = g' @ r2" "g' \<noteq> []" "list_all (\<lambda>c. c \<noteq> backtick) g'"
    "lit [backtick] (\<lambda>p s. Some (g', p, s)) (Some (last g')) r2 = Some (g, p', r)"
    by blast
  with r1 show ?thesis
    unfolding lit_Some_iff by (auto simp: list_all_iff)
qed

lemma re_finditer_member:
  assumes "g \<in> set (re_finditer m p s)"
    and "\<And>q t g q' r. m q t = Some (g, q', r) \<Longrightarrow> suffix r t"
  shows "\<exists>suf q q' r. suffix suf s \<and> m q suf = Some (g, q', r)"
  using assms
proof (induction m p s rule: re_finditer.induct)
  case (1 m p)
  then show ?case by simp
next
  case (2 m p c cs)
  have step: "\<exists>suf q q' r. suffix suf (c # cs) \<and> m q suf = Some (g, q', r)"
    if "\<exists>suf q q' r. suffix suf t \<and> m q suf = Some (g, q', r)" "suffix t (c # cs)" for t
    using that by (meson suffix_order.trans)
  show ?case
  proof (cases "m p (c # cs)")
    case None
    with 2 have "\<exists>suf q q' r. suffix suf cs \<and> m q suf = Some (g, q', r)"
      by auto
    then show ?thesis
      by (rule step) (simp add: suffix_Cons)
  next
    case (Some t)
    obtain g0 p0 r0 where t: "t = (g0, p0, r0)" by (cases t)
    show ?thesis
    proof (cases "length r0 \<le> length cs")
      case True
      note len = this
      with "2.prems"(1) Some t have "g = g0 \<or> g \<in> set (re_finditer m p0 r0)" by simp
      then show ?thesis
      proof
        assume "g = g0"
        with Some t show ?thesis
          by (intro exI[of _ "c # cs"]) auto
      next
        assume "g \<in> set (re_finditer m p0 r0)"
        with "2.IH"(2)[OF Some _ _ len] "2.prems"(2) t
        have "\<exists>suf q q' r. suffix suf r0 \<and> m q suf = Some (g, q', r)" by auto
        moreover have "suffix r0 (c # cs)"
          using "2.prems"(2) Some t by auto
        ultimately show ?thesis by (rule step)
      qed
    next
      case False
      with 2 Some t have "\<exists>suf q q' r. suffix suf cs \<and> m q suf = Some (g, q', r)"
        by auto
      then show ?thesis
        by (rule step) (simp add: suffix_Cons)
    qed
  qed
qed


lemma dollar_paren_suffix: "dollar_paren q t = Some (g, q', r) \<Longrightarrow> suffix r t"
  by (drule dollar_paren_SomeD) (auto simp: suffix_def)

lemma backticks_suffix: "backticks q t = Some (g, q', r) \<Longrightarrow> suffix r t"
  by (drule backticks_SomeD) (auto simp: suffix_def)

lemma extract_substitution_commands_member:
  assumes "g \<in> set (extract_substitution_commands command)"
  shows "\<exists>pre post. g \<noteq> [] \<and>
           (command = pre @ ''$('' @ g @ '')'' @ post \<and> CHR '')'' \<notin> set g \<or>
            command = pre @ [backtick] @ g @ [backtick] @ post \<and> backtick \<notin> set g)"
proof -
  from assms consider
    "g \<in> set (re_finditer dollar_paren None command)" |
    "g \<in> set (re_finditer backticks None command)"
    by (auto simp: extract_substitution_commands_def)
  then show ?thesis
  proof cases
    case 1
    have "\<exists>suf q q' r. suffix suf command \<and> dollar_paren q suf = Some (g, q', r)"
      using 1 by (rule re_finditer_member) (erule dollar_paren_suffix)
    then obtain suf q q' r where
      suf: "suffix suf command" "dollar_paren q suf = Some (g, q', r)" by blast
    from suf(1) obtain pre where "command = pre @ suf" by (auto simp: suffix_def)
    with dollar_paren_SomeD[OF suf(2)] show ?thesis
      by (intro exI[of _ pre] exI[of _ r]) simp
  next
    case 2
    have "\<exists>suf q q' r. suffix suf command \<and> backticks q suf = Some (g, q', r)"
      using 2 by (rule re_finditer_member) (erule backticks_suffix)
    then obtain suf q q' r where
      suf: "suffix suf command" "backticks q suf = Some (g, q', r)" by blast
    from suf(1) obtain pre where "command = pre @ suf" by (auto simp: suffix_def)
    with backticks_SomeD[OF suf(2)] show ?thesis
      by (intro exI[of _ pre] exI[of _ r]) simp
  qed
qed

lemma extract_substitution_commands_shorter:
  "g \<in> set (extract_substitution_commands command) \<Longrightarrow> length g < length command"
  by (drule extract_substitution_commands_member) auto

subsection \<open>\<^verbatim>\<open>check_general_readonly\<close>, continued\<close>

function check_general_readonly :: "string \<Rightarrow> string option" where
  "check_general_readonly command =
     (if has_redirect command
      then Some ''Blocked: output redirection (> or >>) is not allowed in read-only mode''
      else if has_command_substitution command
      then (if list_ex (\<lambda>inner. truthy (check_general_readonly inner))
                 (extract_substitution_commands command)
            then Some ''Blocked: command substitution contains a write operation''
            else segments_loop general_stage (split_segments command))
      else segments_loop general_stage (split_segments command))"
  by pat_completeness auto
termination
  by (relation "measure length") (auto simp: extract_substitution_commands_shorter)

declare check_general_readonly.simps [simp del]

subsection \<open>\<^verbatim>\<open>check_git_readonly\<close>\<close>

text \<open>The loop that finds the subcommand after git's global flags, with \<^verbatim>\<open>skip_next\<close> as
  its state; \<open>None\<close> is \<^verbatim>\<open>sub is None\<close>.\<close>

fun find_subcommand :: "bool \<Rightarrow> string list \<Rightarrow> string option" where
  "find_subcommand skip_next [] = None"
| "find_subcommand skip_next (w # ws) =
     (if skip_next then find_subcommand False ws
      else if w \<in> set [''-C'', ''-c'', ''--git-dir'', ''--work-tree'']
      then find_subcommand True ws
      else if startswith w ''-'' then find_subcommand False ws
      else Some w)"

definition safe_flags :: "string list" where
  "safe_flags = [''--get'', ''--get-all'', ''--list'', ''-l'', ''--get-regexp'']"

definition git_words :: "nat \<Rightarrow> string list \<Rightarrow> string option" where
  "git_words i words =
     (if words = [] then None
      else (case resolve_prefix words of
        (base, words) \<Rightarrow>
          if base = [] then None
          else if base = ''git'' then
            (if length words < 2 then None
             else (case find_subcommand False (tl words) of
               None \<Rightarrow> None
             | Some sub \<Rightarrow>
                 if sub \<notin> set GIT_SAFE_SUBCOMMANDS then Some (not_allowed (''git '' @ sub))
                 else (case map_of GIT_RESTRICTED_ARGS sub of
                   None \<Rightarrow> None
                 | Some restricted \<Rightarrow>
                     if sub = ''config'' then
                       (if list_ex (\<lambda>w. w \<in> set safe_flags) (drop 2 words) then None
                        else Some (''Blocked: '' @ quote @ ''git config'' @ quote @
                                   '' is only allowed with --get or --list''))
                     else if sub = ''stash'' then
                       (if 2 < length words \<and> words ! 2 \<notin> set [''list'', ''show'']
                        then Some (not_allowed (''git stash '' @ words ! 2))
                        else None)
                     else (case find (\<lambda>w. w \<in> set restricted) (drop 2 words) of
                       None \<Rightarrow> None
                     | Some w \<Rightarrow> Some (not_allowed (''git '' @ sub @ '' '' @ w))))))
          else if base \<in> set READONLY_UTILITIES then
            (if base = ''sed'' \<and> has_sed_inplace words
             then Some (''Blocked: '' @ quote @ ''sed -i'' @ quote @
                        '' (in-place edit) is not allowed in read-only mode'')
             else None)
          else Some (''Blocked: '' @ quote @ base @ quote @
                     '' is not in the read-only allowlist'')))"

definition git_stage :: "nat \<Rightarrow> string \<Rightarrow> string option" where
  "git_stage i stage = git_words i (get_cmd_words stage)"

function check_git_readonly :: "string \<Rightarrow> string option" where
  "check_git_readonly command =
     (if has_redirect command
      then Some ''Blocked: output redirection is not allowed in read-only mode''
      else if has_command_substitution command
      then (if list_ex (\<lambda>inner. truthy (check_git_readonly inner))
                 (extract_substitution_commands command)
            then Some ''Blocked: command substitution contains a blocked operation''
            else segments_loop git_stage (split_segments command))
      else segments_loop git_stage (split_segments command))"
  by pat_completeness auto
termination
  by (relation "measure length") (auto simp: extract_substitution_commands_shorter)

declare check_git_readonly.simps [simp del]

section \<open>The loops stop at the first blocked stage\<close>

lemma stages_loop_blocked:
  "j < length stages \<Longrightarrow> body (i + j) (stages ! j) \<noteq> None \<Longrightarrow>
     stages_loop body i stages \<noteq> None"
proof (induction stages arbitrary: i j)
  case Nil
  then show ?case by simp
next
  case (Cons s stages)
  show ?case
  proof (cases j)
    case 0
    with Cons.prems show ?thesis by (auto split: option.splits)
  next
    case (Suc j')
    with Cons.prems have "stages_loop body (Suc i) stages \<noteq> None"
      by (intro Cons.IH[of j']) auto
    then show ?thesis by (auto split: option.splits)
  qed
qed

lemma segments_loop_blocked:
  "segment \<in> set segments \<Longrightarrow> stages_loop body 0 (split_pipes segment) \<noteq> None \<Longrightarrow>
     segments_loop body segments \<noteq> None"
  by (induction segments) (auto split: option.splits)

lemma check_git_readonly_blocked:
  "segments_loop git_stage (split_segments command) \<noteq> None \<Longrightarrow>
     check_git_readonly command \<noteq> None"
  by (subst check_git_readonly.simps) simp

lemma check_general_readonly_blocked:
  "segments_loop general_stage (split_segments command) \<noteq> None \<Longrightarrow>
     check_general_readonly command \<noteq> None"
  by (subst check_general_readonly.simps) simp

section \<open>Git allowlist precision\<close>

text \<open>
  Claim C7. Under git-readonly mode the allowlist decides the six commands of the
  specification as it says: \<^verbatim>\<open>git log -5\<close> is allowed, \<^verbatim>\<open>git branch -D feature\<close> is blocked,
  \<^verbatim>\<open>git stash list\<close> is allowed, \<^verbatim>\<open>git stash pop\<close> is blocked,
  \<^verbatim>\<open>git config --get user.name\<close> is allowed and \<^verbatim>\<open>git config user.name x\<close> is blocked,
  each blocked one with the reason of its own rule.
\<close>

theorem git_allowlist_precision:
  "check_git_readonly ''git log -5'' = None \<and>
   check_git_readonly ''git branch -D feature'' = Some (not_allowed ''git branch -D'') \<and>
   check_git_readonly ''git stash list'' = None \<and>
   check_git_readonly ''git stash pop'' = Some (not_allowed ''git stash pop'') \<and>
   check_git_readonly ''git config --get user.name'' = None \<and>
   check_git_readonly ''git config user.name x'' =
     Some (''Blocked: '' @ quote @ ''git config'' @ quote @
           '' is only allowed with --get or --list'')"
  by code_simp

section \<open>Default-deny in git-readonly mode\<close>

text \<open>
  Claim C2. In git-readonly mode, whenever some pipe stage of some segment of the command
  resolves to a base command that is not empty, is not \<^verbatim>\<open>git\<close> and is not in the
  safe-utility allowlist, the whole command is blocked; in particular \<^verbatim>\<open>docker ps\<close> is
  blocked, with the reason that \<^verbatim>\<open>docker\<close> is not in the allowlist.
\<close>

theorem git_default_deny:
  assumes "segment \<in> set (split_segments command)"
    and "stage \<in> set (split_pipes segment)"
    and "resolve_prefix (get_cmd_words stage) = (base, words)"
    and "base \<noteq> []" and "base \<noteq> ''git''" and "base \<notin> set READONLY_UTILITIES"
  shows "check_git_readonly command \<noteq> None \<and>
         check_git_readonly ''docker ps'' =
           Some (''Blocked: '' @ quote @ ''docker'' @ quote @
                 '' is not in the read-only allowlist'')"
proof
  have w: "get_cmd_words stage \<noteq> []"
    using assms(3,4) by (auto simp: resolve_prefix_def)
  have "git_stage i stage =
          Some (''Blocked: '' @ quote @ base @ quote @ '' is not in the read-only allowlist'')"
    for i
    using assms(3-6) w by (simp add: git_stage_def git_words_def)
  moreover obtain j where "j < length (split_pipes segment)" "split_pipes segment ! j = stage"
    using assms(2) by (auto simp: in_set_conv_nth)
  ultimately have "stages_loop git_stage 0 (split_pipes segment) \<noteq> None"
    by (intro stages_loop_blocked[of j]) auto
  with assms(1) have "segments_loop git_stage (split_segments command) \<noteq> None"
    by (rule segments_loop_blocked)
  then show "check_git_readonly command \<noteq> None"
    by (rule check_git_readonly_blocked)
next
  show "check_git_readonly ''docker ps'' =
          Some (''Blocked: '' @ quote @ ''docker'' @ quote @
                '' is not in the read-only allowlist'')"
    by code_simp
qed

theorem git_default_deny_witness:
  "''cat a | kubectl get pods'' \<in>
     set (split_segments ''git status && cat a | kubectl get pods'') \<and>
   ''kubectl get pods'' \<in> set (split_pipes ''cat a | kubectl get pods'') \<and>
   resolve_prefix (get_cmd_words ''kubectl get pods'') =
     (''kubectl'', [''kubectl'', ''get'', ''pods'']) \<and>
   check_git_readonly ''git status && cat a | kubectl get pods'' \<noteq> None"
proof -
  have 1: "''cat a | kubectl get pods'' \<in>
             set (split_segments ''git status && cat a | kubectl get pods'')"
    by code_simp
  have 2: "''kubectl get pods'' \<in> set (split_pipes ''cat a | kubectl get pods'')"
    by code_simp
  have 3: "resolve_prefix (get_cmd_words ''kubectl get pods'') =
             (''kubectl'', [''kubectl'', ''get'', ''pods''])"
    by code_simp
  have 4: "''kubectl'' \<noteq> []" "''kubectl'' \<noteq> ''git''" "''kubectl'' \<notin> set READONLY_UTILITIES"
    by code_simp+
  from git_default_deny[OF 1 2 3 4] 1 2 3 show ?thesis
    by simp
qed

section \<open>Command substitutions are checked by the same evaluator\<close>

text \<open>A reason is never the empty string, so \<^verbatim>\<open>if result:\<close> holds exactly when the inner
  command is blocked.\<close>

lemma general_words_truthy: "general_words i words = Some reason \<Longrightarrow> reason \<noteq> []"
  by (auto simp: general_words_def not_allowed_def split: if_splits prod.splits option.splits)

lemma stages_loop_truthy:
  assumes "\<And>i stage reason. body i stage = Some reason \<Longrightarrow> reason \<noteq> []"
  shows "stages_loop body i stages = Some reason \<Longrightarrow> reason \<noteq> []"
  by (induction stages arbitrary: i) (auto split: option.splits dest: assms)

lemma segments_loop_truthy:
  assumes "\<And>i stage reason. body i stage = Some reason \<Longrightarrow> reason \<noteq> []"
  shows "segments_loop body segments = Some reason \<Longrightarrow> reason \<noteq> []"
proof (induction segments)
  case Nil
  then show ?case by simp
next
  case (Cons s segments)
  then show ?case
    using stages_loop_truthy[of body, OF assms] by (auto split: option.splits)
qed

lemma check_general_readonly_truthy:
  "check_general_readonly command \<noteq> None \<Longrightarrow> truthy (check_general_readonly command)"
proof -
  assume a: "check_general_readonly command \<noteq> None"
  have "reason \<noteq> []" if "segments_loop general_stage (split_segments command) = Some reason"
    for reason
    using that
    by (rule segments_loop_truthy[rotated]) (auto simp: general_stage_def dest: general_words_truthy)
  with a show ?thesis
    by (subst check_general_readonly.simps, subst (asm) check_general_readonly.simps)
       (auto simp: truthy_def split: if_splits option.splits)
qed

lemma extract_has_command_substitution:
  assumes "inner \<in> set (extract_substitution_commands command)"
  shows "has_command_substitution command"
proof -
  have "contains p s" if "prefix p s" for p s
    using that by (cases s) auto
  then have c: "contains p (pre @ p @ post)" for p pre post
    by (induction pre) auto
  from extract_substitution_commands_member[OF assms] obtain pre post where
    "command = pre @ ''$('' @ (inner @ '')'' @ post) \<or>
     command = pre @ [backtick] @ (inner @ [backtick] @ post)"
    by auto
  then show ?thesis
    unfolding has_command_substitution_def using c by metis
qed

text \<open>What the recursion does achieve: a command is blocked as soon as one of the
  strings \<^const>\<open>extract_substitution_commands\<close> returns for it is blocked.\<close>

lemma extracted_command_blocked:
  assumes "inner \<in> set (extract_substitution_commands command)"
    and "check_general_readonly inner \<noteq> None"
  shows "check_general_readonly command =
           Some (if has_redirect command
                 then ''Blocked: output redirection (> or >>) is not allowed in read-only mode''
                 else ''Blocked: command substitution contains a write operation'')"
proof -
  have "list_ex (\<lambda>inner. truthy (check_general_readonly inner))
          (extract_substitution_commands command)"
    unfolding list_ex_iff using assms check_general_readonly_truthy by blast
  with extract_has_command_substitution[OF assms(1)] show ?thesis
    by (subst check_general_readonly.simps) simp
qed

text \<open>
  Claim C3. In general-readonly mode a command that contains a \<^verbatim>\<open>$(...)\<close> or back-tick
  substitution has each inner command evaluated by the same evaluator, and is blocked if an
  inner command violates a rule; \<^verbatim>\<open>echo $(rm file)\<close> is blocked. The code does this for a
  substitution that is not nested, with either delimiter. For a nested one it does not:
  the pattern \<^verbatim>\<open>\$\(([^)]+)\)\<close> ends the outer group at the first \<^verbatim>\<open>)\<close>, which closes the
  inner substitution. In \<^verbatim>\<open>echo $(echo $(rm x))\<close> the substitution's inner command is
  \<^verbatim>\<open>echo $(rm x)\<close>, which the evaluator blocks when asked; but the string extracted is
  \<^verbatim>\<open>echo $(rm x\<close>, in which nothing is found, and the whole line is allowed.
\<close>

theorem nested_substitution_allowed:
  "check_general_readonly ''echo $(rm file)'' =
     Some ''Blocked: command substitution contains a write operation'' \<and>
   check_general_readonly (''echo '' @ [backtick] @ ''rm file'' @ [backtick]) =
     Some ''Blocked: command substitution contains a write operation'' \<and>
   check_general_readonly ''echo $(rm x)'' =
     Some ''Blocked: command substitution contains a write operation'' \<and>
   extract_substitution_commands ''echo $(echo $(rm x))'' = [''echo $(rm x''] \<and>
   extract_substitution_commands ''echo $(rm x'' = [] \<and>
   check_general_readonly ''echo $(rm x'' = None \<and>
   check_general_readonly ''echo $(echo $(rm x))'' = None"
  by code_simp

section \<open>Piping into an interpreter\<close>

text \<open>
  Claim C5. In general-readonly mode, whenever a pipe stage at a position greater than 0
  within its segment resolves to a base command in \<^const>\<open>INTERPRETERS\<close>, the command is
  blocked, whatever the other stages are; in particular \<^verbatim>\<open>curl http://x | bash\<close> is blocked
  (for piping into \<^verbatim>\<open>bash\<close>) and \<^verbatim>\<open>cat file | grep foo\<close> is allowed.
\<close>

theorem pipe_into_interpreter_blocked:
  assumes "segment \<in> set (split_segments command)"
    and "0 < i" and "i < length (split_pipes segment)"
    and "resolve_prefix (get_cmd_words (split_pipes segment ! i)) = (base, words)"
    and "base \<in> set INTERPRETERS"
  shows "check_general_readonly command \<noteq> None \<and>
         check_general_readonly ''curl http://x | bash'' =
           Some (''Blocked: piping into '' @ quote @ ''bash'' @ quote @
                 '' is not allowed in read-only mode'') \<and>
         check_general_readonly ''cat file | grep foo'' = None"
proof (intro conjI)
  have b: "base \<noteq> []"
    using assms(5) by (auto simp: INTERPRETERS_def)
  then have w: "get_cmd_words (split_pipes segment ! i) \<noteq> []"
    using assms(4) by (auto simp: resolve_prefix_def)
  have "general_stage i (split_pipes segment ! i) \<noteq> None"
    using assms(2,4,5) b w
    by (simp add: general_stage_def general_words_def split: option.splits)
  with assms(3) have "stages_loop general_stage 0 (split_pipes segment) \<noteq> None"
    by (intro stages_loop_blocked[of i]) auto
  with assms(1) have "segments_loop general_stage (split_segments command) \<noteq> None"
    by (rule segments_loop_blocked)
  then show "check_general_readonly command \<noteq> None"
    by (rule check_general_readonly_blocked)
qed code_simp+

theorem pipe_into_interpreter_blocked_witness:
  "''wget -qO- u | FOO=1 /bin/sh'' \<in> set (split_segments ''true; wget -qO- u | FOO=1 /bin/sh'') \<and>
   (0::nat) < 1 \<and> 1 < length (split_pipes ''wget -qO- u | FOO=1 /bin/sh'') \<and>
   resolve_prefix (get_cmd_words (split_pipes ''wget -qO- u | FOO=1 /bin/sh'' ! 1)) =
     (''sh'', [''/bin/sh'']) \<and>
   ''sh'' \<in> set INTERPRETERS \<and>
   check_general_readonly ''true; wget -qO- u | FOO=1 /bin/sh'' \<noteq> None"
proof -
  have 1: "''wget -qO- u | FOO=1 /bin/sh'' \<in>
             set (split_segments ''true; wget -qO- u | FOO=1 /bin/sh'')"
    by code_simp
  have 2: "(0::nat) < 1"
    by simp
  have 3: "1 < length (split_pipes ''wget -qO- u | FOO=1 /bin/sh'')"
    by code_simp
  have 4: "resolve_prefix (get_cmd_words (split_pipes ''wget -qO- u | FOO=1 /bin/sh'' ! 1)) =
             (''sh'', [''/bin/sh''])"
    by code_simp
  have 5: "''sh'' \<in> set INTERPRETERS"
    by code_simp
  from pipe_into_interpreter_blocked[OF 1 2 3 4 5] 1 3 4 5 show ?thesis
    by simp
qed

section \<open>Path and backslash prefixes\<close>

text \<open>The body of the stage loop reads the first word only through \<^const>\<open>base_name\<close>.\<close>

lemma base_name_path:
  assumes "CHR ''/'' \<notin> set name"
  shows "base_name (dir @ ''/'' @ name) = name"
proof -
  have "\<exists>dir'. dropWhile (\<lambda>c. c = backslash) (dir @ ''/'' @ name) = dir' @ ''/'' @ name"
  proof (cases "\<forall>c\<in>set dir. c = backslash")
    case True
    then have "dropWhile (\<lambda>c. c = backslash) (dir @ ''/'' @ name) = [] @ ''/'' @ name"
      by (simp add: dropWhile_append2 backslash_def)
    then show ?thesis by blast
  next
    case False
    then have "dropWhile (\<lambda>c. c = backslash) (dir @ ''/'' @ name) =
                 dropWhile (\<lambda>c. c = backslash) dir @ ''/'' @ name"
      by (auto simp: dropWhile_append1)
    then show ?thesis by blast
  qed
  then obtain dir' where d: "dropWhile (\<lambda>c. c = backslash) (dir @ ''/'' @ name) = dir' @ ''/'' @ name"
    by blast
  have "takeWhile (\<lambda>c. c \<noteq> CHR ''/'') (rev name @ CHR ''/'' # rev dir') = rev name"
    using assms by (subst takeWhile_append2) auto
  with d show ?thesis
    by (simp add: base_name_def)
qed

lemma base_name_backslash: "base_name (backslash # w) = base_name w"
  by (simp add: base_name_def)

lemma base_name_bare:
  "CHR ''/'' \<notin> set name \<Longrightarrow> \<not> startswith name [backslash] \<Longrightarrow> base_name name = name"
  by (cases name) (auto simp: base_name_def startswith_def)

lemma resolve_prefix_base_name:
  assumes "base_name w = base_name w'"
  shows "fst (resolve_prefix (w # args)) = fst (resolve_prefix (w' # args)) \<and>
         tl (snd (resolve_prefix (w # args))) = tl (snd (resolve_prefix (w' # args)))"
  using assms by (auto simp: resolve_prefix_def Let_def split: list.splits)

lemma general_words_base_name:
  assumes "base_name w = base_name w'"
  shows "general_words i (w # args) = general_words i (w' # args)"
proof -
  obtain b ws where r: "resolve_prefix (w # args) = (b, ws)" by (cases "resolve_prefix (w # args)")
  obtain b' ws' where r': "resolve_prefix (w' # args) = (b', ws')"
    by (cases "resolve_prefix (w' # args)")
  from resolve_prefix_base_name[OF assms, of args] r r' have "b' = b" "tl ws' = tl ws"
    by auto
  then show ?thesis
    by (simp only: general_words_def r r' list.distinct if_False prod.case)
qed

text \<open>What the resolver does achieve: once a stage's words are
  \<^verbatim>\<open>[dir/name, arg, ...]\<close> for a name without slash or leading backslash, the verdict is
  that of \<^verbatim>\<open>[name, arg, ...]\<close>.\<close>

lemma general_words_path_prefix:
  assumes "CHR ''/'' \<notin> set name" and "\<not> startswith name [backslash]"
  shows "general_words i ((dir @ ''/'' @ name) # args) = general_words i (name # args)"
    and "general_words i ((backslash # name) # args) = general_words i (name # args)"
proof -
  note b = base_name_bare[OF assms]
  have p: "base_name (dir @ ''/'' @ name) = name"
    using assms(1) by (rule base_name_path)
  have q: "base_name (backslash # name) = name"
    by (simp add: base_name_backslash b)
  show "general_words i ((dir @ ''/'' @ name) # args) = general_words i (name # args)"
    by (rule general_words_base_name) (simp only: p b)
  show "general_words i ((backslash # name) # args) = general_words i (name # args)"
    by (rule general_words_base_name) (simp only: q b)
qed

text \<open>
  Claim C6. The resolver strips a leading backslash and any directory prefix from a stage's
  command token, so that a path- or backslash-prefixed invocation gets the verdict of the
  bare command name; \<^verbatim>\<open>/bin/rm file\<close> and \<^verbatim>\<open>\rm file\<close> are blocked as \<^verbatim>\<open>rm file\<close> is. The two
  examples hold, the general statement does not:
  \<^item> \<^verbatim>\<open>_base_name\<close> drops the backslashes at the start of the whole token and then the
    directory, so \<^verbatim>\<open>/bin/\rm\<close> resolves to \<^verbatim>\<open>\rm\<close>, which is in no table: \<^verbatim>\<open>/bin/\rm file\<close> is
    allowed, while \<^verbatim>\<open>\rm file\<close> and \<^verbatim>\<open>rm file\<close> are blocked;
  \<^item> \<^verbatim>\<open>_get_cmd_words\<close> runs before the resolver and drops a first token that contains
    \<^verbatim>\<open>=\<close> as a variable assignment, so in \<^verbatim>\<open>/tmp/a=b/rm file\<close> the command token never
    reaches the resolver: the words are \<^verbatim>\<open>file\<close> alone and the command is allowed.
\<close>

theorem prefixed_invocation_allowed:
  "check_general_readonly ''rm file'' = Some (not_allowed ''rm'') \<and>
   check_general_readonly ''/bin/rm file'' = Some (not_allowed ''rm'') \<and>
   check_general_readonly (backslash # ''rm file'') = Some (not_allowed ''rm'') \<and>
   base_name (''/bin/'' @ backslash # ''rm'') = backslash # ''rm'' \<and>
   check_general_readonly (''/bin/'' @ backslash # ''rm file'') = None \<and>
   get_cmd_words ''/tmp/a=b/rm file'' = [''file''] \<and>
   check_general_readonly ''/tmp/a=b/rm file'' = None"
  by code_simp

section \<open>Output redirection\<close>

text \<open>
  Claim C1. In both modes every command that contains an output redirection (\<^verbatim>\<open>>\<close> or
  \<^verbatim>\<open>>>\<close>, with or without a file-descriptor number) to a target other than \<^verbatim>\<open>/dev/null\<close> is
  blocked; \<^verbatim>\<open>echo hi > /tmp/x\<close> is blocked and \<^verbatim>\<open>echo hi > /dev/null\<close> is allowed. The two
  examples hold in both modes. The general statement does not: the pattern of
  \<^verbatim>\<open>_has_redirect\<close> asks for the start of the string, white space or \<^verbatim>\<open>)\<close> right before the
  redirection, so \<^verbatim>\<open>echo hi>/tmp/x\<close>, which a shell reads as the same redirection, is not
  detected, and both modes allow it (\<^verbatim>\<open>echo\<close> is in no blocklist and is in the allowlist).
\<close>

theorem redirect_without_blank_allowed:
  "check_general_readonly ''echo hi > /tmp/x'' =
     Some ''Blocked: output redirection (> or >>) is not allowed in read-only mode'' \<and>
   check_git_readonly ''echo hi > /tmp/x'' =
     Some ''Blocked: output redirection is not allowed in read-only mode'' \<and>
   check_general_readonly ''echo hi > /dev/null'' = None \<and>
   check_git_readonly ''echo hi > /dev/null'' = None \<and>
   has_redirect ''echo hi>/tmp/x'' = False \<and>
   check_general_readonly ''echo hi>/tmp/x'' = None \<and>
   check_git_readonly ''echo hi>/tmp/x'' = None"
  by code_simp

section \<open>Commands without control operators, pipes or redirections\<close>

text \<open>
  In every pattern of the guard the continuation of a \<^verbatim>\<open>*\<close> or \<^verbatim>\<open>+\<close> cannot start with a
  character of the repeated class, so backtracking into the repetition never helps: the
  repetition takes the longest run (\<open>star_maximal\<close>). From this, a string without
  \<^verbatim>\<open>;\<close>, \<^verbatim>\<open>&\<close> and \<^verbatim>\<open>|\<close> is one segment of one stage (\<open>single_segment\<close>), and a string without
  \<^verbatim>\<open>>\<close> has no redirection (\<open>has_redirect_needs_gt\<close>).
\<close>

text \<open>The character before the position reached after reading \<open>xs\<close> from a position with
  \<open>p\<close> before it.\<close>

definition after :: "char option \<Rightarrow> string \<Rightarrow> char option" where
  "after p xs = (if xs = [] then p else Some (last xs))"

lemma after_simps [simp]: "after p [] = p" "after p (x # xs) = after (Some x) xs"
  by (auto simp: after_def)

lemma star_maximal:
  assumes "\<And>q x t. P x \<Longrightarrow> k q (x # t) = None"
  shows "star P k p s = k (after p (takeWhile P s)) (dropWhile P s)"
proof (induction s arbitrary: p)
  case Nil
  show ?case by simp
next
  case (Cons x s)
  show ?case
    using assms Cons.IH[of "Some x"] by (auto split: option.splits)
qed


text \<open>The characters a control operator or a pipe is made of.\<close>

definition sep_char :: "char \<Rightarrow> bool" where
  "sep_char c \<longleftrightarrow> c \<in> set '';&|''"

lemma segment_separator_direct:
  "segment_separator accept p s =
     control_operator (star is_space accept) (after p (takeWhile is_space s)) (dropWhile is_space s)"
  unfolding segment_separator_def
  by (rule star_maximal)
     (auto simp: control_operator_def alt_def cls_def not_behind_def is_space_def)

lemma control_operator_None: "r = [] \<or> \<not> sep_char (hd r) \<Longrightarrow> control_operator k q r = None"
  by (cases r) (auto simp: control_operator_def alt_def cls_def not_behind_def sep_char_def)

lemma segment_separator_None:
  assumes "dropWhile is_space s = [] \<or> \<not> sep_char (hd (dropWhile is_space s))"
  shows "segment_separator accept p s = None"
  unfolding segment_separator_direct using assms by (rule control_operator_None)

lemma re_split_no_match:
  assumes "\<And>q t. t \<noteq> [] \<Longrightarrow> suffix t s \<Longrightarrow> m q t = None"
  shows "re_split m p acc s = [acc @ s]"
  using assms
proof (induction s arbitrary: p acc)
  case Nil
  show ?case by simp
next
  case (Cons c s)
  have "m p (c # s) = None"
    by (rule Cons.prems) auto
  moreover have "re_split m (Some c) (acc @ [c]) s = [(acc @ [c]) @ s]"
    by (rule Cons.IH) (simp add: Cons.prems suffix_Cons)
  ultimately show ?case by simp
qed

lemma dropWhile_suffix_set: "suffix t s \<Longrightarrow> set (dropWhile P t) \<subseteq> set s"
  by (meson set_dropWhileD set_mono_suffix subset_code(1))

lemma segment_separator_no_sep:
  assumes "list_all (\<lambda>c. \<not> sep_char c) s" and "suffix t s"
  shows "segment_separator accept q t = None"
proof (rule segment_separator_None)
  show "dropWhile is_space t = [] \<or> \<not> sep_char (hd (dropWhile is_space t))"
  proof (cases "dropWhile is_space t")
    case Nil
    then show ?thesis by simp
  next
    case (Cons x xs)
    then have "x \<in> set s"
      using dropWhile_suffix_set[OF assms(2), of is_space] by auto
    with assms(1) Cons show ?thesis by (simp add: list_all_iff)
  qed
qed

lemma re_split_segments_no_sep:
  assumes "list_all (\<lambda>c. \<not> sep_char c) s"
  shows "re_split (segment_separator accept) p acc s = [acc @ s]"
  by (rule re_split_no_match) (rule segment_separator_no_sep[OF assms])

lemma single_pipe_None: "s = [] \<or> hd s \<noteq> CHR ''|'' \<Longrightarrow> single_pipe accept p s = None"
  by (cases s) (auto simp: single_pipe_def not_behind_def cls_def)

lemma re_split_pipes_no_pipe:
  assumes "CHR ''|'' \<notin> set s"
  shows "re_split (single_pipe accept) p acc s = [acc @ s]"
proof (rule re_split_no_match)
  fix q t assume "t \<noteq> []" "suffix t s"
  then have "hd t \<in> set s"
    by (metis hd_in_set set_mono_suffix subsetD)
  with assms show "single_pipe accept q t = None"
    by (intro single_pipe_None) auto
qed

lemma replace_continuation_id: "newline \<notin> set s \<Longrightarrow> replace_continuation s = s"
  by (induction s rule: replace_continuation.induct) auto

lemma strip_id: "s \<noteq> [] \<Longrightarrow> \<not> is_space (hd s) \<Longrightarrow> \<not> is_space (last s) \<Longrightarrow> strip s = s"
proof -
  assume a: "s \<noteq> []" "\<not> is_space (hd s)" "\<not> is_space (last s)"
  then have "dropWhile is_space s = s"
    by (simp add: dropWhile_eq_self_iff)
  moreover from a have "dropWhile is_space (rev s) = rev s"
    by (simp add: dropWhile_eq_self_iff hd_rev)
  ultimately show ?thesis by (simp add: strip_def)
qed

lemma split_ws_word: "list_all (\<lambda>c. \<not> is_space c) w \<Longrightarrow> split_ws acc (w @ s) = split_ws (acc @ w) s"
  by (induction w arbitrary: acc) auto

lemma sep_char_simps:
  "sep_char c \<longleftrightarrow> c = CHR '';'' \<or> c = CHR ''&'' \<or> c = CHR ''|''"
  by (auto simp: sep_char_def)

lemma single_segment:
  assumes "list_all (\<lambda>c. \<not> sep_char c) s" and "newline \<notin> set s" and "s \<noteq> []"
    and "\<not> is_space (hd s)" and "\<not> is_space (last s)"
  shows "split_segments s = [s]" and "split_pipes s = [s]"
proof -
  have "CHR ''|'' \<notin> set s"
    using assms(1) by (auto simp: list_all_iff sep_char_simps)
  with assms show "split_segments s = [s]" "split_pipes s = [s]"
    by (simp_all add: split_segments_def split_pipes_def replace_continuation_id
        re_split_segments_no_sep re_split_pipes_no_pipe strip_nonempty_def strip_id)
qed

lemma lit_gt_None: "CHR ''>'' \<notin> set s \<Longrightarrow> lit ''>'' k p s = None"
  by (cases s) (auto simp: cls_def)

lemma cls_no_gt:
  assumes "\<And>q t. CHR ''>'' \<notin> set t \<Longrightarrow> K q t = None" and "CHR ''>'' \<notin> set s"
  shows "cls P K p s = None"
  using assms by (cases s) (auto simp: cls_def)

lemma opt_None: "r K p s = None \<Longrightarrow> K p s = None \<Longrightarrow> opt r K p s = None"
  by (simp add: opt_def)

lemma bos_None: "K p s = None \<Longrightarrow> bos K p s = None"
  by (auto simp: bos_def)

lemma alt_None: "r1 K p s = None \<Longrightarrow> r2 K p s = None \<Longrightarrow> alt r1 r2 K p s = None"
  by (simp add: alt_def)


lemma optional_fd_None:
  assumes "CHR ''>'' \<notin> set s"
  shows "opt (cls P) (lit ''>'' k) p s = None"
  apply (rule opt_None)
   apply (rule cls_no_gt)
    apply (erule lit_gt_None)
   apply (rule assms)
  apply (rule lit_gt_None)
  apply (rule assms)
  done

lemma devnull_redirect_None: "CHR ''>'' \<notin> set s \<Longrightarrow> devnull_redirect k p s = None"
  unfolding devnull_redirect_def by (rule optional_fd_None)

lemma file_redirect_None:
  assumes "CHR ''>'' \<notin> set s"
  shows "file_redirect k p s = None"
  unfolding file_redirect_def
  apply (rule alt_None)
   apply (rule bos_None)
   apply (rule optional_fd_None)
   apply (rule assms)
  apply (rule cls_no_gt)
   apply (erule optional_fd_None)
  apply (rule assms)
  done

lemma re_sub_empty_no_match:
  assumes "\<And>q t. suffix t s \<Longrightarrow> m q t = None"
  shows "re_sub_empty m p s = s"
  using assms
proof (induction s arbitrary: p)
  case Nil
  show ?case by simp
next
  case (Cons c s)
  have "m p (c # s) = None"
    by (rule Cons.prems) simp
  moreover have "re_sub_empty m (Some c) s = s"
    by (rule Cons.IH) (simp add: Cons.prems suffix_Cons)
  ultimately show ?case by simp
qed

lemma re_search_no_match:
  assumes "\<And>q t. suffix t s \<Longrightarrow> m q t = None"
  shows "\<not> re_search m p s"
  using assms
proof (induction s arbitrary: p)
  case Nil
  then show ?case by simp
next
  case (Cons c s)
  have "m p (c # s) = None"
    by (rule Cons.prems) simp
  moreover have "\<not> re_search m (Some c) s"
    by (rule Cons.IH) (simp add: Cons.prems suffix_Cons)
  ultimately show ?case by simp
qed

lemma has_redirect_needs_gt:
  assumes "CHR ''>'' \<notin> set command"
  shows "\<not> has_redirect command"
proof -
  have gt: "CHR ''>'' \<notin> set t" if "suffix t command" for t
  proof -
    from that have "set t \<subseteq> set command" by (rule set_mono_suffix)
    with assms show ?thesis by blast
  qed
  have "re_sub_empty (devnull_redirect accept) None command = command"
    by (rule re_sub_empty_no_match, rule devnull_redirect_None, rule gt)
  moreover have "\<not> re_search (file_redirect accept) None command"
    by (rule re_search_no_match, rule file_redirect_None, rule gt)
  ultimately show ?thesis by (simp add: has_redirect_def)
qed


section \<open>The stash check reads a fixed position\<close>

lemma contains_skip:
  assumes "p \<noteq> []" and "list_all (\<lambda>c. c \<noteq> hd p) w"
  shows "contains p (w @ t) = contains p t"
  using assms by (induction w) (auto simp: prefix_Cons neq_Nil_conv)

lemma split_ws_last_word:
  assumes "list_all (\<lambda>c. \<not> is_space c) w" and "acc @ w \<noteq> []"
  shows "split_ws acc w = [acc @ w]"
  using split_ws_word[OF assms(1), of acc "[]"] assms(2) by simp

lemma segments_loop_single:
  "segments_loop body [c] = stages_loop body 0 (split_pipes c)"
  by (simp split: option.splits)

lemma stages_loop_single: "stages_loop body i [c] = body i c"
  by (simp split: option.splits)

lemma git_stash_words:
  assumes "d \<notin> set [''list'', ''show'']"
  shows "git_words i [''git'', ''-C'', d, ''stash'', ''list''] =
           Some (not_allowed (''git stash '' @ d))"
  using assms
  by (simp add: git_words_def resolve_prefix_def base_name_def backslash_def startswith_def
      GIT_SAFE_SUBCOMMANDS_def GIT_RESTRICTED_ARGS_def Let_def)

lemma git_dash_C_words:
  assumes "d \<noteq> []" and "list_all (\<lambda>c. \<not> is_space c) d"
  shows "get_cmd_words (''git -C '' @ d @ '' stash list'') = [''git'', ''-C'', d, ''stash'', ''list'']"
proof -
  have "split_ws [] (d @ '' stash list'') = d # split_ws [] ''stash list''"
    using assms by (simp add: split_ws_word is_space_def)
  then show ?thesis
    by (simp add: get_cmd_words_def py_split_def is_space_def startswith_def)
qed

text \<open>
  Claim C9, as amended. In git-readonly mode the \<^verbatim>\<open>stash\<close> check reads the token at position
  2 counted from \<^verbatim>\<open>git\<close>, not the token after the subcommand it located. So for every
  directory name \<open>d\<close> that is one shell word (not empty, no white space, none of \<^verbatim>\<open>;\<close>, \<^verbatim>\<open>&\<close>,
  \<^verbatim>\<open>|\<close>) other than \<^verbatim>\<open>list\<close> and \<^verbatim>\<open>show\<close>, \<^verbatim>\<open>git -C d stash list\<close> is blocked, its stage with
  the reason that \<^verbatim>\<open>git stash d\<close> is not allowed; for \<open>d\<close> = \<^verbatim>\<open>list\<close> and \<open>d\<close> = \<^verbatim>\<open>show\<close> it is
  allowed, as \<^verbatim>\<open>git stash list\<close> is. The \<^verbatim>\<open>config\<close> check reads every token from position 2 on,
  the value of a global flag included: \<^verbatim>\<open>git -c --get config user.name x\<close> is allowed.
\<close>

theorem git_stash_fixed_position:
  assumes "d \<noteq> []"
    and "list_all (\<lambda>c. \<not> is_space c \<and> c \<notin> set '';&|'') d"
    and "d \<notin> set [''list'', ''show'']"
  shows "check_git_readonly (''git -C '' @ d @ '' stash list'') \<noteq> None \<and>
         git_stage 0 (''git -C '' @ d @ '' stash list'') =
           Some (not_allowed (''git stash '' @ d)) \<and>
         check_git_readonly ''git -C /tmp stash list'' = Some (not_allowed ''git stash /tmp'') \<and>
         check_git_readonly ''git -C list stash list'' = None \<and>
         check_git_readonly ''git -C show stash list'' = None \<and>
         check_git_readonly ''git stash list'' = None \<and>
         check_git_readonly ''git -c --get config user.name x'' = None"
proof (intro conjI)
  let ?c = "''git -C '' @ d @ '' stash list''"
  have sp: "list_all (\<lambda>c. \<not> is_space c) d" and sep: "list_all (\<lambda>c. \<not> sep_char c) d"
    using assms(2) by (auto simp: list_all_iff sep_char_def)
  have nl: "newline \<notin> set d"
    using sp by (auto simp: list_all_iff is_space_def newline_def)
  show stage: "git_stage 0 ?c = Some (not_allowed (''git stash '' @ d))"
    unfolding git_stage_def git_dash_C_words[OF assms(1) sp]
    by (rule git_stash_words[OF assms(3)])
  have "split_segments ?c = [?c]" "split_pipes ?c = [?c]"
    using sep nl by (auto intro!: single_segment simp: sep_char_simps is_space_def newline_def)
  then have "segments_loop git_stage (split_segments ?c) \<noteq> None"
    using stage by (simp add: segments_loop_single stages_loop_single del: segments_loop.simps stages_loop.simps)
  then show "check_git_readonly ?c \<noteq> None"
    by (rule check_git_readonly_blocked)
qed code_simp+

theorem git_stash_fixed_position_witness:
  "''/srv/repo'' \<noteq> [] \<and>
   list_all (\<lambda>c. \<not> is_space c \<and> c \<notin> set '';&|'') ''/srv/repo'' \<and>
   ''/srv/repo'' \<notin> set [''list'', ''show''] \<and>
   check_git_readonly ''git -C /srv/repo stash list'' \<noteq> None \<and>
   git_stage 0 ''git -C /srv/repo stash list'' = Some (not_allowed ''git stash /srv/repo'')"
proof -
  have 1: "''/srv/repo'' \<noteq> []"
    by simp
  have 2: "list_all (\<lambda>c. \<not> is_space c \<and> c \<notin> set '';&|'') ''/srv/repo''"
    by (simp add: is_space_def)
  have 3: "''/srv/repo'' \<notin> set [''list'', ''show'']"
    by simp
  from git_stash_fixed_position[OF 1 2 3] 2 show ?thesis
    by simp
qed

text \<open>
  Claim C9 as it was stated says \<^verbatim>\<open>git -C d stash list\<close> is blocked for every directory
  \<open>d\<close>. A directory may be called \<^verbatim>\<open>list\<close>: then the token at position 2 is \<^verbatim>\<open>list\<close>, and
  the command is allowed.
\<close>

theorem git_stash_in_directory_list_allowed:
  "check_git_readonly ''git -C list stash list'' = None"
  by code_simp

section \<open>An interpreter with a script\<close>

lemma check_general_readonly_single_stage:
  assumes "\<not> has_redirect c" and "\<not> has_command_substitution c"
    and "split_segments c = [c]" and "split_pipes c = [c]"
  shows "check_general_readonly c = general_stage 0 c"
  using assms
  by (subst check_general_readonly.simps)
     (simp add: segments_loop_single stages_loop_single
        del: segments_loop.simps stages_loop.simps)

text \<open>\<^verbatim>\<open>prefix.split()\<close> for every entry of \<^const>\<open>WRITE_PREFIXES\<close>.\<close>

lemma write_prefixes_words:
  "map py_split WRITE_PREFIXES =
     [[''docker'', ''stop''], [''docker'', ''rm''], [''docker'', ''kill''], [''docker'', ''rmi''],
      [''docker'', ''exec''], [''docker-compose'', ''down''], [''docker'', ''compose'', ''down''],
      [''git'', ''push''], [''git'', ''reset''], [''git'', ''clean''], [''git'', ''merge''],
      [''git'', ''rebase''], [''git'', ''commit''], [''git'', ''cherry-pick''], [''git'', ''revert''],
      [''git'', ''pull''], [''git'', ''checkout'', ''--''], [''git'', ''restore''],
      [''git'', ''stash'', ''drop''], [''git'', ''stash'', ''clear''], [''git'', ''stash'', ''pop''],
      [''git'', ''config''], [''git'', ''remote'', ''add''], [''git'', ''remote'', ''remove''],
      [''git'', ''remote'', ''rename''], [''git'', ''branch'', ''-d''], [''git'', ''branch'', ''-D''],
      [''git'', ''branch'', ''--delete''], [''git'', ''branch'', ''-m''], [''git'', ''branch'', ''-M''],
      [''git'', ''branch'', ''--move''], [''git'', ''tag'', ''-d''], [''git'', ''tag'', ''--delete''],
      [''pip'', ''install''], [''pip'', ''uninstall''], [''pip3'', ''install''],
      [''pip3'', ''uninstall''], [''uv'', ''pip''], [''npm'', ''install''], [''npm'', ''uninstall''],
      [''npm'', ''ci''], [''npm'', ''update''], [''npm'', ''link''], [''yarn'', ''add''],
      [''yarn'', ''remove''], [''yarn'', ''install''], [''pnpm'', ''add''], [''pnpm'', ''remove''],
      [''pnpm'', ''install''], [''apt'', ''install''], [''apt-get'', ''install''],
      [''apt'', ''remove''], [''apt-get'', ''remove''], [''cargo'', ''install''], [''sed'', ''-i''],
      [''sed'', ''--in-place'']]"
  by code_simp


lemma no_write_prefix:
  assumes "base \<notin> set (map hd (map py_split WRITE_PREFIXES))"
  shows "find (matches_prefix (base # args)) WRITE_PREFIXES = None"
proof -
  have ne: "[] \<notin> set (map py_split WRITE_PREFIXES)"
    unfolding write_prefixes_words by simp
  have "\<not> matches_prefix (base # args) wp" if wp: "wp \<in> set WRITE_PREFIXES" for wp
  proof
    assume m: "matches_prefix (base # args) wp"
    from wp ne obtain x xs where x: "py_split wp = x # xs"
      by (cases "py_split wp") force+
    with m have "x = base"
      by (auto simp: matches_prefix_def split: if_splits)
    with x wp have "base \<in> set (map hd (map py_split WRITE_PREFIXES))"
      by force
    with assms show False by contradiction
  qed
  then show ?thesis
    by (simp add: find_None_iff)
qed

text \<open>A character that is not white space, not part of an operator, a redirection or a
  substitution, and not the \<^verbatim>\<open>=\<close> of an assignment.\<close>

definition plain_char :: "char \<Rightarrow> bool" where
  "plain_char c \<longleftrightarrow> \<not> is_space c \<and> \<not> sep_char c \<and> c \<notin> set ''>$='' \<and> c \<noteq> backtick"

lemma command_and_argument:
  assumes w: "w \<noteq> []" "list_all plain_char w"
    and s: "s \<noteq> []" "list_all (\<lambda>c. \<not> is_space c \<and> c \<notin> set '';&|>'') s"
    and sub: "\<not> has_command_substitution s"
  shows "check_general_readonly (w @ '' '' @ s) = general_words 0 [w, s]"
proof -
  let ?c = "w @ '' '' @ s"
  have sp: "list_all (\<lambda>c. \<not> is_space c) s" and sep: "list_all (\<lambda>c. \<not> sep_char c) s"
    and gt: "CHR ''>'' \<notin> set s"
    using s(2) by (auto simp: list_all_iff sep_char_def)
  have wsp: "list_all (\<lambda>c. \<not> is_space c) w" and wsep: "list_all (\<lambda>c. \<not> sep_char c) w"
    and wgt: "CHR ''>'' \<notin> set w" and weq: "CHR ''='' \<notin> set w"
    and wd: "list_all (\<lambda>c. c \<noteq> CHR ''$'') w" and wb: "list_all (\<lambda>c. c \<noteq> backtick) w"
    using w(2) by (auto simp: list_all_iff plain_char_def)
  have 1: "\<not> has_redirect ?c"
    using gt wgt by (intro has_redirect_needs_gt) simp
  have "contains ''$('' ((w @ '' '') @ s) = contains ''$('' s"
    using wd by (intro contains_skip) simp_all
  moreover have "contains [backtick] ((w @ '' '') @ s) = contains [backtick] s"
    using wb by (intro contains_skip) (simp_all add: backtick_def)
  ultimately have 2: "\<not> has_command_substitution ?c"
    using sub by (simp add: has_command_substitution_def)
  have nsp: "\<not> sep_char (CHR '' '')" "newline \<noteq> CHR '' ''" "is_space (CHR '' '')"
    by (simp_all add: sep_char_simps newline_def is_space_def)
  have "newline \<notin> set w" "newline \<notin> set s"
    using sp wsp by (auto simp: list_all_iff is_space_def newline_def)
  moreover have "\<not> is_space (hd ?c)" "\<not> is_space (last ?c)"
    using w(1) s(1) wsp sp by (auto simp: list_all_iff hd_append)
  ultimately have 3: "split_segments ?c = [?c]" "split_pipes ?c = [?c]"
    using sep wsep nsp w(1) by (auto intro!: single_segment)
  have "split_ws [] (w @ CHR '' '' # s) = split_ws ([] @ w) (CHR '' '' # s)"
    using wsp by (rule split_ws_word)
  also have "\<dots> = w # split_ws [] s"
    using w(1) nsp(3) by simp
  also have "split_ws [] s = [s]"
    using split_ws_last_word[OF sp, of "[]"] s(1) by simp
  finally have 4: "get_cmd_words ?c = [w, s]"
    using weq by (simp add: get_cmd_words_def py_split_def)
  from check_general_readonly_single_stage[OF 1 2 3] 4 show ?thesis
    by (simp add: general_stage_def)
qed


lemma interpreter_words_allowed:
  assumes "s \<noteq> ''-c''"
  shows "general_words 0 [''bash'', s] = None" and "general_words 0 [''python3'', s] = None"
proof -
  have b: "base_name ''bash'' = ''bash''" "base_name ''python3'' = ''python3''"
    by (simp_all add: base_name_def backslash_def)
  have r: "resolve_prefix [''bash'', s] = (''bash'', [''bash'', s])"
    "resolve_prefix [''python3'', s] = (''python3'', [''python3'', s])"
    by (simp_all add: resolve_prefix_def b Let_def)
  have f: "find (matches_prefix (''bash'' # [s])) WRITE_PREFIXES = None"
    "find (matches_prefix (''python3'' # [s])) WRITE_PREFIXES = None"
    by (rule no_write_prefix, simp add: write_prefixes_words)+
  have w: "''bash'' \<notin> set WRITE_COMMANDS" "''python3'' \<notin> set WRITE_COMMANDS"
    by (simp_all add: WRITE_COMMANDS_def)
  have i: "map_of INLINE_FLAGS ''bash'' = Some ''-c''" "map_of INLINE_FLAGS ''python3'' = Some ''-c''"
    by (simp_all add: INLINE_FLAGS_def)
  show "general_words 0 [''bash'', s] = None"
    using assms f(1) by (simp add: general_words_def r(1) w(1) i(1))
  show "general_words 0 [''python3'', s] = None"
    using assms f(2) by (simp add: general_words_def r(2) w(2) i(2))
qed

text \<open>
  Claim C10. In general-readonly mode an interpreter as the first stage of a segment,
  with a script name and without its inline-execution flag, is allowed: for every script
  name \<open>s\<close> that is one word (not empty, no white space) without redirection (\<^verbatim>\<open>>\<close>), chaining
  (\<^verbatim>\<open>;\<close>, \<^verbatim>\<open>&\<close>, \<^verbatim>\<open>|\<close>) or substitution (\<^verbatim>\<open>$(\<close>, back-tick) and other than the flag \<^verbatim>\<open>-c\<close>, both
  \<^verbatim>\<open>bash s\<close> and \<^verbatim>\<open>python3 s\<close> are allowed.
\<close>

theorem interpreter_script_allowed:
  assumes "s \<noteq> []"
    and "list_all (\<lambda>c. \<not> is_space c \<and> c \<notin> set '';&|>'') s"
    and "\<not> has_command_substitution s"
    and "s \<noteq> ''-c''"
  shows "check_general_readonly (''bash '' @ s) = None \<and>
         check_general_readonly (''python3 '' @ s) = None"
proof -
  have p: "list_all plain_char ''bash''" "list_all plain_char ''python3''"
    by (simp_all add: plain_char_def is_space_def sep_char_simps backtick_def)
  have "check_general_readonly (''bash'' @ '' '' @ s) = None"
    using command_and_argument[OF _ p(1) assms(1,2,3)] interpreter_words_allowed(1)[OF assms(4)]
    by simp
  moreover have "check_general_readonly (''python3'' @ '' '' @ s) = None"
    using command_and_argument[OF _ p(2) assms(1,2,3)] interpreter_words_allowed(2)[OF assms(4)]
    by simp
  ultimately show ?thesis by simp
qed

theorem interpreter_script_allowed_witness:
  "''deploy.sh'' \<noteq> [] \<and>
   list_all (\<lambda>c. \<not> is_space c \<and> c \<notin> set '';&|>'') ''deploy.sh'' \<and>
   \<not> has_command_substitution ''deploy.sh'' \<and>
   ''deploy.sh'' \<noteq> ''-c'' \<and>
   check_general_readonly ''bash deploy.sh'' = None \<and>
   check_general_readonly ''python3 deploy.sh'' = None"
proof -
  have 1: "''deploy.sh'' \<noteq> []"
    by simp
  have 2: "list_all (\<lambda>c. \<not> is_space c \<and> c \<notin> set '';&|>'') ''deploy.sh''"
    by (simp add: is_space_def)
  have 3: "\<not> has_command_substitution ''deploy.sh''"
    by code_simp
  have 4: "''deploy.sh'' \<noteq> ''-c''"
    by simp
  from interpreter_script_allowed[OF 1 2 3 4] 2 3 show ?thesis
    by simp
qed

section \<open>What is extracted from a substitution\<close>

text \<open>
  The specification describes the entry of a \<^verbatim>\<open>$(...)\<close> group as the text from the \<^verbatim>\<open>$(\<close> up
  to the first unmatched \<^verbatim>\<open>)\<close>. \<open>spec_group_content\<close> follows these words, to compare the
  code with them: read after a \<^verbatim>\<open>$(\<close>, it counts the parentheses opened since and returns
  the text before the first \<^verbatim>\<open>)\<close> that closes none of them, and the text after it.
\<close>

fun spec_group_content :: "nat \<Rightarrow> string \<Rightarrow> string \<Rightarrow> (string \<times> string) option" where
  "spec_group_content depth acc [] = None"
| "spec_group_content depth acc (c # cs) =
     (if c = CHR '')'' then
        (case depth of
           0 \<Rightarrow> Some (acc, cs)
         | Suc d \<Rightarrow> spec_group_content d (acc @ [c]) cs)
      else if c = CHR ''('' then spec_group_content (Suc depth) (acc @ [c]) cs
      else spec_group_content depth (acc @ [c]) cs)"

lemma spec_group_content_plain:
  assumes "list_all (\<lambda>c. c \<noteq> CHR ''('' \<and> c \<noteq> CHR '')'') x"
  shows "spec_group_content 0 acc (x @ '')'' @ post) = Some (acc @ x, post)"
  using assms by (induction x arbitrary: acc) auto

lemma cls_prev: "cls P k p s = cls P k p' s"
  by (simp add: cls_def)

lemma lit_prev: "w \<noteq> [] \<Longrightarrow> lit w k p s = lit w k p' s"
  by (cases w) (simp_all add: cls_def)

lemma lit_head_None: "w \<noteq> [] \<Longrightarrow> s = [] \<or> hd s \<noteq> hd w \<Longrightarrow> lit w k p s = None"
  by (cases w; cases s) (auto simp: cls_def)

lemma lit_append: "lit w k p (w @ r) = k (after p w) r"
  by (induction w arbitrary: p) (simp_all add: cls_def)

lemma group_plus_match:
  assumes "x \<noteq> []" and "list_all P x" and "r = [] \<or> \<not> P (hd r)"
    and "\<And>g q c t. P c \<Longrightarrow> k g q (c # t) = None"
  shows "group (plus P) k p (x @ r) = k x (Some (last x)) r"
proof -
  obtain a as where x: "x = a # as" using assms(1) by (cases x) auto
  let ?k = "\<lambda>p' s'. k (take (length (x @ r) - length s') (x @ r)) p' s'"
  have tw: "takeWhile P (as @ r) = as" "dropWhile P (as @ r) = r"
    using assms(2,3) x by (cases r; auto simp: list_all_iff takeWhile_append2 dropWhile_append2 takeWhile_eq_Nil_iff)+
  have "star P ?k (Some a) (as @ r) = ?k (after (Some a) (takeWhile P (as @ r))) (dropWhile P (as @ r))"
    by (rule star_maximal) (simp add: assms(4))
  also have "\<dots> = k x (Some (last x)) r"
    by (simp add: tw x after_def)
  finally show ?thesis
    using assms(2) by (simp add: group_def plus_def cls_def x)
qed


lemma dollar_paren_match:
  assumes "x \<noteq> []" and "CHR '')'' \<notin> set x"
  shows "dollar_paren p (''$('' @ x @ '')'' @ post) = Some (x, Some (CHR '')''), post)"
proof -
  have "group (plus (\<lambda>c. c \<noteq> CHR '')'')) (\<lambda>g. lit '')'' (\<lambda>p s. Some (g, p, s)))
          (Some (CHR ''('')) (x @ '')'' @ post) =
        lit '')'' (\<lambda>p s. Some (x, p, s)) (Some (last x)) ('')'' @ post)"
    using assms by (intro group_plus_match) (auto simp: list_all_iff cls_def)
  then show ?thesis
    by (simp add: dollar_paren_def cls_def)
qed

lemma backticks_match:
  assumes "x \<noteq> []" and "backtick \<notin> set x"
  shows "backticks p ([backtick] @ x @ [backtick] @ post) = Some (x, Some backtick, post)"
proof -
  have "group (plus (\<lambda>c. c \<noteq> backtick)) (\<lambda>g. lit [backtick] (\<lambda>p s. Some (g, p, s)))
          (Some backtick) (x @ [backtick] @ post) =
        lit [backtick] (\<lambda>p s. Some (x, p, s)) (Some (last x)) ([backtick] @ post)"
    using assms by (intro group_plus_match) (auto simp: list_all_iff cls_def)
  then show ?thesis
    by (simp add: backticks_def cls_def)
qed

lemma dollar_paren_head: "c \<noteq> CHR ''$'' \<Longrightarrow> dollar_paren p (c # t) = None"
  by (simp add: dollar_paren_def cls_def)

lemma backticks_head: "c \<noteq> backtick \<Longrightarrow> backticks p (c # t) = None"
  by (simp add: backticks_def cls_def)

lemma dollar_paren_prev: "dollar_paren p s = dollar_paren p' s"
  unfolding dollar_paren_def by (rule lit_prev) simp

lemma backticks_prev: "backticks p s = backticks p' s"
  unfolding backticks_def by (rule lit_prev) simp

lemma re_finditer_prev:
  assumes "\<And>q q' t. m q t = m q' t"
  shows "re_finditer m p s = re_finditer m p' s"
  using assms
proof (induction s arbitrary: p p' rule: length_induct)
  case (1 s)
  show ?case
  proof (cases s)
    case Nil
    then show ?thesis by simp
  next
    case (Cons c cs)
    have m: "m p (c # cs) = m p' (c # cs)" by (rule "1.prems")
    have ih: "re_finditer m q t = re_finditer m q' t" if "length t \<le> length cs" for q q' t
      using "1.IH" that "1.prems" Cons by auto
    show ?thesis
      unfolding Cons using m ih
      by (auto split: option.splits prod.splits)
  qed
qed

lemma re_finditer_skip:
  assumes "\<And>q c t. c \<in> set pre \<Longrightarrow> m q (c # t) = None"
  shows "re_finditer m p (pre @ v) = re_finditer m (after p pre) v"
  using assms by (induction pre arbitrary: p) simp_all

lemma re_finditer_none:
  assumes "\<And>q c t. c \<in> set s \<Longrightarrow> m q (c # t) = None"
  shows "re_finditer m p s = []"
  using re_finditer_skip[of s m p "[]"] assms by simp


text \<open>The two loops of \<^verbatim>\<open>_extract_substitution_commands\<close>, one after the other.\<close>

definition dollar_commands :: "string \<Rightarrow> string list" where
  "dollar_commands command = re_finditer dollar_paren None command"

definition backtick_commands :: "string \<Rightarrow> string list" where
  "backtick_commands command = re_finditer backticks None command"

lemma dollar_commands_group:
  assumes "CHR ''$'' \<notin> set pre" and "x \<noteq> []" and "CHR '')'' \<notin> set x"
  shows "dollar_commands (pre @ ''$('' @ x @ '')'' @ post) = x # dollar_commands post"
proof -
  have "re_finditer dollar_paren None (pre @ ''$('' @ x @ '')'' @ post) =
        re_finditer dollar_paren (after None pre) (''$('' @ x @ '')'' @ post)"
    using assms(1) by (intro re_finditer_skip dollar_paren_head) auto
  also have "\<dots> = x # re_finditer dollar_paren (Some (CHR '')'')) post"
    using dollar_paren_match[OF assms(2,3), of "after None pre" post] by simp
  also have "re_finditer dollar_paren (Some (CHR '')'')) post = re_finditer dollar_paren None post"
    by (rule re_finditer_prev) (rule dollar_paren_prev)
  finally show ?thesis by (simp add: dollar_commands_def)
qed

lemma backtick_commands_pair:
  assumes "backtick \<notin> set pre" and "x \<noteq> []" and "backtick \<notin> set x"
  shows "backtick_commands (pre @ [backtick] @ x @ [backtick] @ post) = x # backtick_commands post"
proof -
  have "re_finditer backticks None (pre @ [backtick] @ x @ [backtick] @ post) =
        re_finditer backticks (after None pre) ([backtick] @ x @ [backtick] @ post)"
    using assms(1) by (intro re_finditer_skip backticks_head) auto
  also have "\<dots> = x # re_finditer backticks (Some backtick) post"
    using backticks_match[OF assms(2,3), of "after None pre" post] by simp
  also have "re_finditer backticks (Some backtick) post = re_finditer backticks None post"
    by (rule re_finditer_prev) (rule backticks_prev)
  finally show ?thesis by (simp add: backtick_commands_def)
qed

lemma dollar_commands_none: "CHR ''$'' \<notin> set s \<Longrightarrow> dollar_commands s = []"
  unfolding dollar_commands_def by (intro re_finditer_none dollar_paren_head) auto

lemma backtick_commands_none: "backtick \<notin> set s \<Longrightarrow> backtick_commands s = []"
  unfolding backtick_commands_def by (intro re_finditer_none backticks_head) auto

text \<open>
  Where the content of a group has no parentheses, and for back-ticks, the code extracts
  what the specification describes, one entry per group from left to right, the \<^verbatim>\<open>$(...)\<close>
  groups first. An empty group gives no entry. Every entry is shorter than the command.
\<close>

lemma substitution_extraction:
  assumes "CHR ''$'' \<notin> set pre" and "backtick \<notin> set pre" and "x \<noteq> []"
    and "list_all (\<lambda>c. c \<notin> set ''()'' \<and> c \<noteq> backtick) x"
  shows "extract_substitution_commands command = dollar_commands command @ backtick_commands command \<and>
         dollar_commands (pre @ ''$('' @ x @ '')'' @ post) = x # dollar_commands post \<and>
         spec_group_content 0 [] (x @ '')'' @ post) = Some (x, post) \<and>
         backtick_commands (pre @ [backtick] @ x @ [backtick] @ post) = x # backtick_commands post \<and>
         dollar_commands pre = [] \<and> backtick_commands pre = [] \<and>
         dollar_commands ''$()'' = [] \<and> backtick_commands [backtick, backtick] = [] \<and>
         list_all (\<lambda>g. g \<noteq> [] \<and> length g < length command)
           (extract_substitution_commands command)"
proof (intro conjI)
  have x: "CHR '')'' \<notin> set x" "backtick \<notin> set x" "list_all (\<lambda>c. c \<noteq> CHR ''('' \<and> c \<noteq> CHR '')'') x"
    using assms(4) by (auto simp: list_all_iff)
  show "extract_substitution_commands command = dollar_commands command @ backtick_commands command"
    by (simp add: extract_substitution_commands_def dollar_commands_def backtick_commands_def)
  show "dollar_commands (pre @ ''$('' @ x @ '')'' @ post) = x # dollar_commands post"
    using assms(1,3) x(1) by (rule dollar_commands_group)
  show "spec_group_content 0 [] (x @ '')'' @ post) = Some (x, post)"
    using spec_group_content_plain[OF x(3), of "[]" post] by simp
  show "backtick_commands (pre @ [backtick] @ x @ [backtick] @ post) = x # backtick_commands post"
    using assms(2,3) x(2) by (rule backtick_commands_pair)
  show "dollar_commands pre = []"
    using assms(1) by (rule dollar_commands_none)
  show "backtick_commands pre = []"
    using assms(2) by (rule backtick_commands_none)
  show "dollar_commands ''$()'' = []"
    by code_simp
  show "backtick_commands [backtick, backtick] = []"
    by code_simp
  show "list_all (\<lambda>g. g \<noteq> [] \<and> length g < length command)
          (extract_substitution_commands command)"
    unfolding list_all_iff
    using extract_substitution_commands_member extract_substitution_commands_shorter by blast
qed


text \<open>
  Claim C8. For every input, extraction returns one entry per \<^verbatim>\<open>$(...)\<close> group, each
  extending up to the first unmatched closing parenthesis, plus one entry per pair of
  back-ticks, each entry a full command line fit for recursive classification. The code
  does so for groups without parentheses inside (\<open>substitution_extraction\<close>). For a nested
  substitution it does not: the pattern \<^verbatim>\<open>\$\(([^)]+)\)\<close> ends the entry at the first \<^verbatim>\<open>)\<close>,
  matched or not. In \<^verbatim>\<open>echo $(echo $(rm x))\<close> the text up to the first unmatched \<^verbatim>\<open>)\<close> is
  \<^verbatim>\<open>echo $(rm x)\<close>; the entry returned is \<^verbatim>\<open>echo $(rm x\<close>, which is not a command line, and
  from it nothing more is extracted.
\<close>

theorem nested_group_truncated:
  "spec_group_content 0 [] ''rm x) y'' = Some (''rm x'', '' y'') \<and>
   extract_substitution_commands ''echo $(rm x) y'' = [''rm x''] \<and>
   spec_group_content 0 [] ''echo $(rm x))'' = Some (''echo $(rm x)'', []) \<and>
   extract_substitution_commands ''echo $(echo $(rm x))'' = [''echo $(rm x''] \<and>
   extract_substitution_commands ''echo $(rm x'' = []"
  by code_simp


section \<open>Splitting a command line into segments\<close>
































end
